theory Spec2Isabelle
  imports Main "HOL-Library.Word" "HOL-Library.Sublist"
begin

section \<open>Strings\<close>

text \<open>
  A JavaScript string is a sequence of UTF-16 code units. String literals of the source
  are written \<open>js ''...''\<close>; all of them are ASCII.
\<close>

type_synonym jschar = "16 word"
type_synonym jsstring = "jschar list"

definition js :: "string \<Rightarrow> jsstring" where
  "js = map of_char"

text \<open>\<open>Array.prototype.join\<close> on an array of strings.\<close>

fun join :: "jsstring \<Rightarrow> jsstring list \<Rightarrow> jsstring" where
  "join sep [] = []"
| "join sep [x] = x"
| "join sep (x # y # ys) = x @ sep @ join sep (y # ys)"

text \<open>Truthiness of a value of type \<open>string | null\<close>: neither \<open>null\<close> nor \<open>""\<close>.\<close>

fun truthy :: "jsstring option \<Rightarrow> bool" where
  "truthy None = False"
| "truthy (Some t) = (t \<noteq> [])"

text \<open>A value of type \<open>string | null\<close> interpolated into a template literal.\<close>

fun interpolate :: "jsstring option \<Rightarrow> jsstring" where
  "interpolate None = js ''null''"
| "interpolate (Some t) = t"

text \<open>\<open>content || ""\<close>.\<close>

fun orEmpty :: "jsstring option \<Rightarrow> jsstring" where
  "orEmpty None = []"
| "orEmpty (Some t) = (if t \<noteq> [] then t else [])"

section \<open>\<open>SQLQueryAssistant.cleanQuery\<close>\<close>

text \<open>
  The class \<open>\s\<close> of a JavaScript regular expression without the \<open>u\<close> flag: the
  WhiteSpace and LineTerminator code points of ECMAScript.
\<close>

definition isWhiteSpace :: "jschar \<Rightarrow> bool" where
  "isWhiteSpace c \<longleftrightarrow>
     c \<in> {0x0009, 0x000A, 0x000B, 0x000C, 0x000D, 0x0020, 0x00A0, 0x1680,
          0x2000, 0x2001, 0x2002, 0x2003, 0x2004, 0x2005, 0x2006, 0x2007,
          0x2008, 0x2009, 0x200A, 0x2028, 0x2029, 0x202F, 0x205F, 0x3000, 0xFEFF}"

text \<open>
  \<open>.replace(/```sql\n?/g, "")\<close>: the global replace scans from the left; where the six
  code units of \<open>```sql\<close> stand at the current position they are dropped together with one
  following line feed if there is one (the \<open>?\<close> is greedy), and the scan goes on behind
  the match; elsewhere the code unit is kept and the scan moves one position on.
\<close>

fun stripSqlFence :: "jsstring \<Rightarrow> jsstring" where
  "stripSqlFence (a # b # c # d # e # f # rest) =
     (if [a, b, c, d, e, f] = js ''```sql''
      then (case rest of
              [] \<Rightarrow> stripSqlFence []
            | n # rest' \<Rightarrow>
                if [n] = js ''\<newline>'' then stripSqlFence rest' else stripSqlFence (n # rest'))
      else a # stripSqlFence (b # c # d # e # f # rest))"
| "stripSqlFence (a # rest) = a # stripSqlFence rest"
| "stripSqlFence [] = []"

text \<open>\<open>.replace(/```/g, "")\<close>, scanned the same way.\<close>

fun stripFence :: "jsstring \<Rightarrow> jsstring" where
  "stripFence (a # b # c # rest) =
     (if [a, b, c] = js ''```'' then stripFence rest
      else a # stripFence (b # c # rest))"
| "stripFence [a, b] = a # stripFence [b]"
| "stripFence [a] = a # stripFence []"
| "stripFence [] = []"

text \<open>
  \<open>.replace(/^\s+|\s+$/g, "")\<close>: without the \<open>m\<close> flag \<open>^\<close> and \<open>$\<close> are the ends of
  the input, so the leading and the trailing run of white space are removed.
\<close>

definition trimWhiteSpace :: "jsstring \<Rightarrow> jsstring" where
  "trimWhiteSpace s = rev (dropWhile isWhiteSpace (rev (dropWhile isWhiteSpace s)))"

definition cleanQuery :: "jsstring \<Rightarrow> jsstring" where
  "cleanQuery query = trimWhiteSpace (stripFence (stripSqlFence query))"

section \<open>Thrown values\<close>

text \<open>
  What an external call (the database driver, the chat client) rejects with: an instance
  of \<open>Error\<close> carrying a message, or any other value.
\<close>

datatype rejection = RejectError jsstring | RejectOther

text \<open>
  What a method of this program throws: an \<open>Error\<close> with its message, the \<open>TypeError\<close>
  the runtime raises when a property of \<open>null\<close> or \<open>undefined\<close> is read (its message is
  the engine's), or a value that is no \<open>Error\<close>.
\<close>

datatype thrown = Error jsstring | TypeError jsstring | NonError

fun thrownOf :: "rejection \<Rightarrow> thrown" where
  "thrownOf (RejectError m) = Error m"
| "thrownOf RejectOther = NonError"

text \<open>\<open>err instanceof Error ? err.message : "Unknown error"\<close>.\<close>

fun messageOrUnknown :: "thrown \<Rightarrow> jsstring" where
  "messageOrUnknown (Error m) = m"
| "messageOrUnknown (TypeError m) = m"
| "messageOrUnknown NonError = js ''Unknown error''"

section \<open>State and external collaborators\<close>

datatype pool = Pool nat

text \<open>The calls made to the external collaborators, in the order they were made.\<close>

datatype event =
    Opened pool
  | OpenFailed
  | Closed pool
  | CloseFailed pool
  | Queried pool
  | ChatGenerate
  | ChatFormat

text \<open>
  The field \<open>pool\<close> of \<open>SQLSchemaInspector\<close>, and the log of external calls. The other
  fields (\<open>config\<close>, \<open>aiConfig\<close>) are never assigned after construction.
\<close>

record state =
  pool :: "pool option"
  trace :: "event list"

definition initialState :: state where
  "initialState = \<lparr>pool = None, trace = []\<rparr>"

definition logEvent :: "event \<Rightarrow> state \<Rightarrow> state" where
  "logEvent e s = s\<lparr>trace := trace s @ [e]\<rparr>"

text \<open>
  An \<open>async\<close> method: it starts in a state and ends in one, either resolved (\<open>Inr\<close>) or
  rejected (\<open>Inl\<close>). Every \<open>await\<close> is sequential composition.
\<close>

type_synonym 'a io = "state \<Rightarrow> (thrown + 'a) \<times> state"

definition succeed :: "'a \<Rightarrow> 'a io" where
  "succeed x s = (Inr x, s)"

definition throw :: "thrown \<Rightarrow> 'a io" where
  "throw e s = (Inl e, s)"

definition andThen :: "'a io \<Rightarrow> ('a \<Rightarrow> 'b io) \<Rightarrow> 'b io" where
  "andThen m f s = (case m s of (Inl e, s') \<Rightarrow> (Inl e, s') | (Inr x, s') \<Rightarrow> f x s')"

text \<open>
  \<open>try { ... } catch (error) { throw new Error(`<prefix>${error instanceof Error ?
  error.message : "Unknown error"}`) }\<close>.
\<close>

definition rethrow :: "jsstring \<Rightarrow> 'a io \<Rightarrow> 'a io" where
  "rethrow pre m s =
     (case m s of
        (Inl e, s') \<Rightarrow> (Inl (Error (pre @ messageOrUnknown e)), s')
      | (Inr x, s') \<Rightarrow> (Inr x, s'))"

subsection \<open>Catalog rows\<close>

text \<open>
  The rows of the five catalog statements, with the fields the statements select. The
  field types are those of the interfaces \<open>TableMetadata\<close> and \<open>ColumnMetadata\<close> and of the
  selected catalog columns (names are strings, \<open>is_unique\<close> is a bit).
\<close>

record TableMetadata =
  TABLE_NAME :: jsstring
  TABLE_DESCRIPTION :: "jsstring option"

record ColumnMetadata =
  COLUMN_NAME :: jsstring
  DATA_TYPE :: jsstring
  IS_NULLABLE :: jsstring
  COLUMN_DEFAULT :: "jsstring option"
  COLUMN_DESCRIPTION :: "jsstring option"

record PrimaryKeyRow =
  pk_COLUMN_NAME :: jsstring

record ForeignKeyRow =
  FK_NAME :: jsstring
  fk_TABLE_NAME :: jsstring
  fk_COLUMN_NAME :: jsstring
  REFERENCED_TABLE_NAME :: jsstring
  REFERENCED_COLUMN_NAME :: jsstring

record IndexRow =
  INDEX_NAME :: jsstring
  ix_COLUMN_NAME :: jsstring
  is_unique :: bool

subsection \<open>The database driver and the chat client\<close>

text \<open>
  A statement sent through \<open>pool.request().query(...)\<close> is represented by what the driver
  answers to it: a record set or a rejection, which may depend on the pool and on
  everything that happened before.
\<close>

type_synonym 'a request = "event list \<Rightarrow> pool \<Rightarrow> rejection + 'a list"

text \<open>\<open>response.choices\<close>, each choice with its \<open>message.content\<close> (\<open>string | null\<close>).\<close>

record choice =
  content :: "jsstring option"

record completion =
  choices :: "choice list"

text \<open>
  The external collaborators. \<open>poolConnect\<close> is \<open>new sql.ConnectionPool(config).connect()\<close>
  and \<open>poolClose\<close> is \<open>pool.close()\<close>. The five catalog statements of \<open>inspectSchema\<close> are
  \<open>tablesQuery\<close> to \<open>indexesQuery\<close>, the last four taking the interpolated table name;
  \<open>sqlQuery\<close> is an arbitrary statement text with rows of type \<open>'r\<close>. \<open>chatGenerate\<close> and
  \<open>chatFormat\<close> are the two calls of \<open>client.chat.completions.create\<close>, given the values
  interpolated into their messages (prompt and schema; query and results); the model
  name, the language and the temperature are constants of the configuration.
\<close>

record 'r env =
  poolConnect :: "event list \<Rightarrow> rejection + pool"
  poolClose :: "event list \<Rightarrow> pool \<Rightarrow> rejection + unit"
  tablesQuery :: "TableMetadata request"
  columnsQuery :: "jsstring \<Rightarrow> ColumnMetadata request"
  primaryKeysQuery :: "jsstring \<Rightarrow> PrimaryKeyRow request"
  foreignKeysQuery :: "jsstring \<Rightarrow> ForeignKeyRow request"
  indexesQuery :: "jsstring \<Rightarrow> IndexRow request"
  sqlQuery :: "jsstring \<Rightarrow> 'r request"
  chatGenerate :: "event list \<Rightarrow> jsstring \<Rightarrow> jsstring \<Rightarrow> rejection + completion"
  chatFormat :: "event list \<Rightarrow> jsstring \<Rightarrow> 'r list \<Rightarrow> rejection + completion"

section \<open>\<open>SQLSchemaInspector\<close>\<close>

subsection \<open>\<open>connect\<close>, \<open>disconnect\<close>, \<open>executeQuery\<close>\<close>

text \<open>\<open>this.pool = await new sql.ConnectionPool(this.config).connect()\<close>.\<close>

definition openPool :: "'r env \<Rightarrow> unit io" where
  "openPool env s =
     (case poolConnect env (trace s) of
        Inl r \<Rightarrow> (Inl (thrownOf r), logEvent OpenFailed s)
      | Inr p \<Rightarrow> (Inr (), (logEvent (Opened p) s)\<lparr>pool := Some p\<rparr>))"

definition connect :: "'r env \<Rightarrow> unit io" where
  "connect env =
     rethrow (js ''Failed to connect to database: '')
       (\<lambda>s. if pool s = None then openPool env s else succeed () s)"

definition disconnect :: "'r env \<Rightarrow> unit io" where
  "disconnect env s =
     (case pool s of
        None \<Rightarrow> (Inr (), s)
      | Some p \<Rightarrow>
          (case poolClose env (trace s) p of
             Inl r \<Rightarrow> (Inl (thrownOf r), logEvent (CloseFailed p) s)
           | Inr u \<Rightarrow> (Inr (), (logEvent (Closed p) s)\<lparr>pool := None\<rparr>)))"

text \<open>
  \<open>await this.pool!.request().query(query)\<close> and \<open>return result.recordset\<close>. The \<open>!\<close> is
  erased by the compiler: on a \<open>null\<close> pool the runtime raises a \<open>TypeError\<close>.
\<close>

definition dispatch :: "'a request \<Rightarrow> 'a list io" where
  "dispatch query s =
     (case pool s of
        None \<Rightarrow> (Inl (TypeError (js ''Cannot read properties of null (reading 'request')'')), s)
      | Some p \<Rightarrow>
          (case query (trace s) p of
             Inl r \<Rightarrow> (Inl (thrownOf r), logEvent (Queried p) s)
           | Inr rows \<Rightarrow> (Inr rows, logEvent (Queried p) s)))"

definition executeQuery :: "'r env \<Rightarrow> 'a request \<Rightarrow> 'a list io" where
  "executeQuery env query =
     andThen (\<lambda>s. if pool s = None then connect env s else succeed () s)
       (\<lambda>u. dispatch query)"

subsection \<open>Rendering one table\<close>

text \<open>The table header: the statements between the column query and the column loop.\<close>

definition addTableHeader :: "TableMetadata \<Rightarrow> jsstring \<Rightarrow> jsstring" where
  "addTableHeader table schema =
     (let schema1 = schema @ js ''Table: '' @ TABLE_NAME table @ js ''\<newline>'';
          schema2 = (if truthy (TABLE_DESCRIPTION table)
                     then schema1 @ js ''Description: '' @ interpolate (TABLE_DESCRIPTION table)
                            @ js ''\<newline>''
                     else schema1);
          schema3 = schema2 @ js ''----------------------------------------\<newline>''
      in schema3 @ js ''Columns:\<newline>'')"

text \<open>The body of \<open>for (const column of columns)\<close>.\<close>

definition addColumn :: "ColumnMetadata \<Rightarrow> jsstring \<Rightarrow> jsstring" where
  "addColumn column schema =
     (let schema1 = schema @ js ''- '' @ COLUMN_NAME column @ js '' ('' @ DATA_TYPE column
                      @ js '')'';
          properties =
            (if IS_NULLABLE column = js ''NO'' then [js ''NOT NULL''] else []) @
            (case COLUMN_DEFAULT column of
               None \<Rightarrow> []
             | Some d \<Rightarrow> [js ''DEFAULT: '' @ interpolate (COLUMN_DEFAULT column)]);
          schema2 = (if length properties > 0
                     then schema1 @ js '' ['' @ join (js '', '') properties @ js '']''
                     else schema1);
          schema3 = (if truthy (COLUMN_DESCRIPTION column)
                     then schema2 @ js ''\<newline>  Description: ''
                            @ interpolate (COLUMN_DESCRIPTION column)
                     else schema2)
      in schema3 @ js ''\<newline>'')"

definition addColumns :: "ColumnMetadata list \<Rightarrow> jsstring \<Rightarrow> jsstring" where
  "addColumns columns schema = fold addColumn columns schema"

definition addPrimaryKeys :: "PrimaryKeyRow list \<Rightarrow> jsstring \<Rightarrow> jsstring" where
  "addPrimaryKeys primaryKeys schema =
     (if length primaryKeys > 0
      then fold (\<lambda>pk acc. acc @ js ''- '' @ pk_COLUMN_NAME pk @ js ''\<newline>'') primaryKeys
             (schema @ js ''\<newline>Primary Keys:\<newline>'')
      else schema)"

definition addForeignKeys :: "ForeignKeyRow list \<Rightarrow> jsstring \<Rightarrow> jsstring" where
  "addForeignKeys foreignKeys schema =
     (if length foreignKeys > 0
      then fold (\<lambda>fk acc. acc @ js ''- '' @ fk_COLUMN_NAME fk @ js '' -> ''
                   @ REFERENCED_TABLE_NAME fk @ js ''('' @ REFERENCED_COLUMN_NAME fk
                   @ js '')\<newline>'') foreignKeys
             (schema @ js ''\<newline>Foreign Keys:\<newline>'')
      else schema)"

subsection \<open>The index block\<close>

text \<open>
  \<open>Map<string, { columns: string[]; isUnique: boolean }>\<close>: a JavaScript \<open>Map\<close> iterates
  in insertion order, and \<open>set\<close> on a key that is present keeps the key's position.
\<close>

type_synonym indexEntry = "jsstring list \<times> bool"
type_synonym indexMap = "(jsstring \<times> indexEntry) list"

definition mapHas :: "indexMap \<Rightarrow> jsstring \<Rightarrow> bool" where
  "mapHas m k = (map_of m k \<noteq> None)"

definition mapGet :: "indexMap \<Rightarrow> jsstring \<Rightarrow> indexEntry option" where
  "mapGet m k = map_of m k"

fun mapSet :: "indexMap \<Rightarrow> jsstring \<Rightarrow> indexEntry \<Rightarrow> indexMap" where
  "mapSet [] k v = [(k, v)]"
| "mapSet ((k', v') # m) k v = (if k' = k then (k, v) # m else (k', v') # mapSet m k v)"

text \<open>
  The callback of \<open>indexes.forEach\<close>. \<open>get(...)!.columns.push(...)\<close> changes the entry in
  place; were the key absent, reading \<open>columns\<close> of \<open>undefined\<close> would raise.
\<close>

definition groupIndex :: "IndexRow \<Rightarrow> indexMap \<Rightarrow> thrown + indexMap" where
  "groupIndex index uniqueIndexes =
     (let m = (if \<not> mapHas uniqueIndexes (INDEX_NAME index)
               then mapSet uniqueIndexes (INDEX_NAME index) ([], is_unique index)
               else uniqueIndexes)
      in case mapGet m (INDEX_NAME index) of
           None \<Rightarrow> Inl (TypeError (js ''Cannot read properties of undefined (reading 'columns')''))
         | Some (columns, isUnique) \<Rightarrow>
             Inr (mapSet m (INDEX_NAME index) (columns @ [ix_COLUMN_NAME index], isUnique)))"

fun groupIndexes :: "IndexRow list \<Rightarrow> indexMap \<Rightarrow> thrown + indexMap" where
  "groupIndexes [] m = Inr m"
| "groupIndexes (index # indexes) m =
     (case groupIndex index m of
        Inl e \<Rightarrow> Inl e
      | Inr m' \<Rightarrow> groupIndexes indexes m')"

text \<open>The callback of \<open>uniqueIndexes.forEach\<close>.\<close>

definition addIndexLine :: "jsstring \<times> indexEntry \<Rightarrow> jsstring \<Rightarrow> jsstring" where
  "addIndexLine entry schema =
     (case entry of (indexName, columns, isUnique) \<Rightarrow>
        schema @ js ''- '' @ indexName @ (if isUnique then js '' (UNIQUE)'' else [])
          @ js '': '' @ join (js '', '') columns @ js ''\<newline>'')"

definition addIndexes :: "IndexRow list \<Rightarrow> jsstring \<Rightarrow> thrown + jsstring" where
  "addIndexes indexes schema =
     (if length indexes > 0
      then (case groupIndexes indexes [] of
              Inl e \<Rightarrow> Inl e
            | Inr uniqueIndexes \<Rightarrow>
                Inr (fold addIndexLine uniqueIndexes (schema @ js ''\<newline>Indexes:\<newline>'')))
      else Inr schema)"

subsection \<open>\<open>inspectSchema\<close>\<close>

text \<open>The body of \<open>for (const table of tables)\<close>.\<close>

definition processTable :: "'r env \<Rightarrow> TableMetadata \<Rightarrow> jsstring \<Rightarrow> jsstring io" where
  "processTable env table schema =
     (let tableName = TABLE_NAME table in
      andThen (executeQuery env (columnsQuery env tableName)) (\<lambda>columns.
      andThen (executeQuery env (primaryKeysQuery env tableName)) (\<lambda>primaryKeys.
      andThen (executeQuery env (foreignKeysQuery env tableName)) (\<lambda>foreignKeys.
      andThen (executeQuery env (indexesQuery env tableName)) (\<lambda>indexes.
        (case addIndexes indexes
                (addForeignKeys foreignKeys
                  (addPrimaryKeys primaryKeys
                    (addColumns columns (addTableHeader table schema)))) of
           Inl e \<Rightarrow> throw e
         | Inr schema' \<Rightarrow> succeed (schema' @ js ''\<newline>\<newline>'')))))))"

fun processTables :: "'r env \<Rightarrow> TableMetadata list \<Rightarrow> jsstring \<Rightarrow> jsstring io" where
  "processTables env [] schema s = (Inr schema, s)"
| "processTables env (table # tables) schema s =
     (case processTable env table schema s of
        (Inl e, s') \<Rightarrow> (Inl e, s')
      | (Inr schema', s') \<Rightarrow> processTables env tables schema' s')"

definition inspectSchema :: "'r env \<Rightarrow> jsstring io" where
  "inspectSchema env =
     rethrow (js ''Failed to inspect database schema: '')
       (andThen (connect env) (\<lambda>u.
        andThen (\<lambda>s. if pool s = None
                     then throw (Error (js ''Failed to establish database connection'')) s
                     else succeed () s) (\<lambda>u.
        andThen (executeQuery env (tablesQuery env)) (\<lambda>tables.
          processTables env tables
            (js ''Database Schema:\<newline>=================\<newline>\<newline>'')))))"

section \<open>\<open>SQLQueryAssistant\<close>\<close>

text \<open>
  \<open>response.choices[0].message.content\<close>: with no choice at all, \<open>choices[0]\<close> is
  \<open>undefined\<close> and reading \<open>message\<close> raises.
\<close>

fun firstContent :: "completion \<Rightarrow> thrown + jsstring option" where
  "firstContent response =
     (case choices response of
        [] \<Rightarrow> Inl (TypeError (js ''Cannot read properties of undefined (reading 'message')''))
      | c # cs \<Rightarrow> Inr (content c))"

text \<open>\<open>await this.aiConfig.client.chat.completions.create(...)\<close>.\<close>

definition chatCall :: "event \<Rightarrow> (event list \<Rightarrow> rejection + completion) \<Rightarrow> completion io" where
  "chatCall e create s =
     (case create (trace s) of
        Inl r \<Rightarrow> (Inl (thrownOf r), logEvent e s)
      | Inr response \<Rightarrow> (Inr response, logEvent e s))"

definition generateSQLQuery :: "'r env \<Rightarrow> jsstring \<Rightarrow> jsstring \<Rightarrow> jsstring io" where
  "generateSQLQuery env prompt schema =
     andThen (chatCall ChatGenerate (\<lambda>h. chatGenerate env h prompt schema)) (\<lambda>response.
       (case firstContent response of
          Inl e \<Rightarrow> throw e
        | Inr c \<Rightarrow> succeed (cleanQuery (orEmpty c))))"

definition formatResponse :: "'r env \<Rightarrow> jsstring \<Rightarrow> 'r list \<Rightarrow> jsstring io" where
  "formatResponse env query results =
     andThen (chatCall ChatFormat (\<lambda>h. chatFormat env h query results)) (\<lambda>response.
       (case firstContent response of
          Inl e \<Rightarrow> throw e
        | Inr c \<Rightarrow> succeed (orEmpty c)))"

section \<open>\<open>SQLAnalyzer\<close>\<close>

text \<open>\<open>console.log\<close> of the results writes to the console only and is left out.\<close>

definition analyzeAndQuery :: "'r env \<Rightarrow> jsstring \<Rightarrow> jsstring io" where
  "analyzeAndQuery env prompt =
     rethrow (js ''Failed to analyze and query: '')
       (andThen (inspectSchema env) (\<lambda>schema.
        andThen (generateSQLQuery env prompt schema) (\<lambda>query.
        andThen (executeQuery env (sqlQuery env query)) (\<lambda>results.
          formatResponse env query results))))"

definition analyzerDisconnect :: "'r env \<Rightarrow> unit io" where
  "analyzerDisconnect env = disconnect env"

section \<open>Sequences of calls\<close>

text \<open>
  A client of one analyzer (and of its inspector) that calls the public methods one after
  the other, awaiting each call and going on whether it resolved or rejected.
\<close>

datatype call =
    CallConnect
  | CallDisconnect
  | CallExecuteQuery jsstring
  | CallInspectSchema
  | CallAnalyzeAndQuery jsstring

fun runCall :: "'r env \<Rightarrow> call \<Rightarrow> state \<Rightarrow> state" where
  "runCall env CallConnect s = snd (connect env s)"
| "runCall env CallDisconnect s = snd (analyzerDisconnect env s)"
| "runCall env (CallExecuteQuery query) s = snd (executeQuery env (sqlQuery env query) s)"
| "runCall env CallInspectSchema s = snd (inspectSchema env s)"
| "runCall env (CallAnalyzeAndQuery prompt) s = snd (analyzeAndQuery env prompt s)"

definition runCalls :: "'r env \<Rightarrow> call list \<Rightarrow> state \<Rightarrow> state" where
  "runCalls env calls s = fold (runCall env) calls s"

text \<open>The pools that were opened and not closed since, read off the log.\<close>

fun liveAfter :: "pool list \<Rightarrow> event \<Rightarrow> pool list" where
  "liveAfter live (Opened p) = live @ [p]"
| "liveAfter live (Closed p) = remove1 p live"
| "liveAfter live e = live"

definition liveHandles :: "event list \<Rightarrow> pool list" where
  "liveHandles events = foldl liveAfter [] events"

text \<open>The handle the inspector holds in its field.\<close>

fun held :: "pool option \<Rightarrow> pool list" where
  "held None = []"
| "held (Some p) = [p]"

fun isClose :: "event \<Rightarrow> bool" where
  "isClose (Closed p) = True"
| "isClose (CloseFailed p) = True"
| "isClose e = False"

text \<open>
  What the methods other than \<open>disconnect\<close> can do to the state, one external call at a
  time: send a statement through the pool at hand, open a pool when there is none, or
  call the chat client (for one of the purposes in \<open>A\<close>).
\<close>

inductive footprint :: "event set \<Rightarrow> state \<Rightarrow> state \<Rightarrow> bool" for A :: "event set" where
  fp_refl: "footprint A s s"
| fp_query: "footprint A s s' \<Longrightarrow> pool s' = Some p \<Longrightarrow> footprint A s (logEvent (Queried p) s')"
| fp_opened: "footprint A s s' \<Longrightarrow> pool s' = None \<Longrightarrow>
     footprint A s ((logEvent (Opened p) s')\<lparr>pool := Some p\<rparr>)"
| fp_open_failed: "footprint A s s' \<Longrightarrow> pool s' = None \<Longrightarrow> footprint A s (logEvent OpenFailed s')"
| fp_chat: "footprint A s s' \<Longrightarrow> e \<in> A \<Longrightarrow> e \<in> {ChatGenerate, ChatFormat} \<Longrightarrow>
     footprint A s (logEvent e s')"

section \<open>The schema document, block by block\<close>





text \<open>The distinct elements of a list, each at the place of its first occurrence.\<close>

fun firstSeen :: "'a list \<Rightarrow> 'a list" where
  "firstSeen [] = []"
| "firstSeen (x # xs) = x # filter (\<lambda>y. y \<noteq> x) (firstSeen xs)"

text \<open>The rows that contribute to the index named \<open>n\<close>, in the order of the record set.\<close>

definition contributing :: "IndexRow list \<Rightarrow> jsstring \<Rightarrow> IndexRow list" where
  "contributing indexes n = filter (\<lambda>r. INDEX_NAME r = n) indexes"

text \<open>The uniqueness flag of the first contributing row.\<close>

definition firstFlag :: "IndexRow list \<Rightarrow> jsstring \<Rightarrow> bool" where
  "firstFlag indexes n =
     (case contributing indexes n of [] \<Rightarrow> False | r # rs \<Rightarrow> is_unique r)"

text \<open>The entry of the index named \<open>n\<close>: its columns in row order, and that flag.\<close>

definition grouped :: "IndexRow list \<Rightarrow> jsstring \<Rightarrow> indexEntry" where
  "grouped indexes n = (map ix_COLUMN_NAME (contributing indexes n), firstFlag indexes n)"

text \<open>The uniqueness flag of every contributing row.\<close>

definition everyFlag :: "IndexRow list \<Rightarrow> jsstring \<Rightarrow> bool" where
  "everyFlag indexes n = list_all is_unique (contributing indexes n)"

definition indexLine :: "bool \<Rightarrow> IndexRow list \<Rightarrow> jsstring \<Rightarrow> jsstring" where
  "indexLine unique indexes n =
     js ''- '' @ n @ (if unique then js '' (UNIQUE)'' else []) @ js '': ''
       @ join (js '', '') (map ix_COLUMN_NAME (contributing indexes n)) @ js ''\<newline>''"

text \<open>
  The index block: one line for each distinct index name, in first-seen order, with the
  \<open>(UNIQUE)\<close> suffix decided by \<open>flag\<close>.
\<close>

definition indexesBlock ::
    "(IndexRow list \<Rightarrow> jsstring \<Rightarrow> bool) \<Rightarrow> IndexRow list \<Rightarrow> jsstring" where
  "indexesBlock flag indexes =
     (if indexes = [] then []
      else js ''\<newline>Indexes:\<newline>''
             @ concat (map (\<lambda>n. indexLine (flag indexes n) indexes n)
                 (firstSeen (map INDEX_NAME indexes))))"

section \<open>A sample environment\<close>

text \<open>
  A database with a table of two columns, a primary key on \<open>Id\<close> and two indexes, whose
  enumeration of base tables is empty and which rejects every other statement; a chat
  client that answers a fenced \<open>SELECT 1\<close> and formats an empty record set with no
  content.
\<close>

definition sampleColumns :: "ColumnMetadata list" where
  "sampleColumns =
     [\<lparr>COLUMN_NAME = js ''Id'', DATA_TYPE = js ''int'', IS_NULLABLE = js ''NO'',
        COLUMN_DEFAULT = None, COLUMN_DESCRIPTION = None\<rparr>,
      \<lparr>COLUMN_NAME = js ''Country'', DATA_TYPE = js ''varchar'', IS_NULLABLE = js ''YES'',
        COLUMN_DEFAULT = Some (js ''('UA')''), COLUMN_DESCRIPTION = Some (js ''ISO code'')\<rparr>]"

definition sampleIndexes :: "IndexRow list" where
  "sampleIndexes =
     [\<lparr>INDEX_NAME = js ''IX_Name'', ix_COLUMN_NAME = js ''Name'', is_unique = True\<rparr>,
      \<lparr>INDEX_NAME = js ''IX_Geo'', ix_COLUMN_NAME = js ''Country'', is_unique = False\<rparr>,
      \<lparr>INDEX_NAME = js ''IX_Geo'', ix_COLUMN_NAME = js ''City'', is_unique = False\<rparr>]"

definition sampleEnv :: "unit env" where
  "sampleEnv =
     \<lparr>poolConnect = (\<lambda>h. Inr (Pool (length h))),
      poolClose = (\<lambda>h p. Inr ()),
      tablesQuery = (\<lambda>h p. Inr []),
      columnsQuery = (\<lambda>name h p. Inr sampleColumns),
      primaryKeysQuery = (\<lambda>name h p. Inr [\<lparr>pk_COLUMN_NAME = js ''Id''\<rparr>]),
      foreignKeysQuery = (\<lambda>name h p. Inr []),
      indexesQuery = (\<lambda>name h p. Inr sampleIndexes),
      sqlQuery = (\<lambda>query h p. Inl (RejectError (js ''Invalid object name''))),
      chatGenerate = (\<lambda>h prompt schema.
        Inr \<lparr>choices = [\<lparr>content = Some (js ''```sql\<newline>SELECT 1\<newline>```'')\<rparr>]\<rparr>),
      chatFormat = (\<lambda>h query results.
        Inr \<lparr>choices = [\<lparr>content = (if results = [] then None else Some (js ''One row.''))\<rparr>]\<rparr>)\<rparr>"

section \<open>Properties\<close>

subsection \<open>Fence stripping and trimming\<close>

lemma js_fence: "js ''```'' = [96, 96, 96]"
  by (simp add: js_def)

lemma js_sql_fence: "js ''```sql'' = [96, 96, 96, 115, 113, 108]"
  by (simp add: js_def)

lemma js_line_feed: "js ''\<newline>'' = [10]"
  by (simp add: js_def)

lemma stripFence_other: "a \<noteq> 96 \<Longrightarrow> stripFence (a # t) = a # stripFence t"
  by (cases t rule: stripFence.cases) (simp_all add: js_fence)

lemma stripFence_second_other: "b \<noteq> 96 \<Longrightarrow> stripFence (a # b # t) = a # b # stripFence t"
  by (cases t) (simp_all add: js_fence stripFence_other)

lemma sublist_three_Cons:
  "sublist [x, y, z] (a # t) \<longleftrightarrow> prefix [x, y, z] (a # t) \<or> sublist [x, y, z] t"
  by (simp add: sublist_Cons_right)

text \<open>After the second replace no run of three backticks is left.\<close>

lemma stripFence_no_fence: "\<not> sublist [96, 96, 96] (stripFence s)"
proof (induction s rule: stripFence.induct)
  case (1 a b c rest)
  show ?case
  proof (cases "[a, b, c] = js ''```''")
    case True
    with 1 show ?thesis by simp
  next
    case False
    then have ih: "\<not> sublist [96, 96, 96] (stripFence (b # c # rest))"
      using 1 by simp
    have np: "\<not> prefix [96, 96, 96] (a # stripFence (b # c # rest))"
    proof (cases "b = 96")
      case b: True
      show ?thesis
      proof (cases "c = 96")
        case True
        with b False have "a \<noteq> 96" by (simp add: js_fence)
        then show ?thesis by simp
      next
        case False
        then show ?thesis by (simp add: stripFence_second_other)
      qed
    next
      case False
      then show ?thesis by (simp add: stripFence_other)
    qed
    from False ih np show ?thesis by (simp add: sublist_three_Cons)
  qed
next
  case (3 a)
  then show ?case by (simp add: sublist_Cons_right)
next
  case (2 a v)
  then show ?case by (simp add: sublist_Cons_right)
next
  case 4
  then show ?case by simp
qed

lemma stripFence_unchanged: "\<not> sublist [96, 96, 96] s \<Longrightarrow> stripFence s = s"
proof (induction s rule: stripFence.induct)
  case (1 a b c rest)
  from "1.prems" have nf: "[a, b, c] \<noteq> js ''```''"
    by (auto simp: js_fence sublist_Cons_right)
  from "1.prems" have "\<not> sublist [96, 96, 96] (b # c # rest)"
    by (simp add: sublist_three_Cons)
  with 1 nf show ?case by simp
qed simp_all

lemma stripSqlFence_unchanged: "\<not> sublist [96, 96, 96] s \<Longrightarrow> stripSqlFence s = s"
proof (induction s rule: stripSqlFence.induct)
  case (1 a b c d e f rest)
  from "1.prems" have nf: "[a, b, c, d, e, f] \<noteq> js ''```sql''"
    by (auto simp: js_sql_fence sublist_Cons_right)
  from "1.prems" have "\<not> sublist [96, 96, 96] (b # c # d # e # f # rest)"
    by (simp add: sublist_three_Cons)
  with 1 nf show ?case by simp
qed simp_all

lemma trimWhiteSpace_sublist: "sublist (trimWhiteSpace s) s"
proof -
  let ?d = "dropWhile isWhiteSpace s"
  have "rev ?d = takeWhile isWhiteSpace (rev ?d) @ dropWhile isWhiteSpace (rev ?d)"
    by simp
  then have "?d = trimWhiteSpace s @ rev (takeWhile isWhiteSpace (rev ?d))"
    unfolding trimWhiteSpace_def by (metis rev_append rev_rev_ident)
  moreover have "s = takeWhile isWhiteSpace s @ ?d"
    by simp
  ultimately have
    "s = takeWhile isWhiteSpace s @ trimWhiteSpace s @ rev (takeWhile isWhiteSpace (rev ?d))"
    by simp
  then show ?thesis unfolding sublist_def by blast
qed

lemma dropWhile_both_ends:
  "dropWhile P (rev (dropWhile P (rev (dropWhile P s)))) = rev (dropWhile P (rev (dropWhile P s)))"
proof (cases "dropWhile P s")
  case Nil
  show ?thesis by (simp only: Nil rev.simps dropWhile.simps)
next
  case (Cons x d)
  then have "\<not> P x" by (metis dropWhile_eq_Cons_conv)
  then show ?thesis using Cons by (simp add: dropWhile_append3)
qed

lemma trimWhiteSpace_idem: "trimWhiteSpace (trimWhiteSpace s) = trimWhiteSpace s"
  unfolding trimWhiteSpace_def by (simp add: dropWhile_both_ends)

lemma cleanQuery_no_fence: "\<not> sublist [96, 96, 96] (cleanQuery s)"
proof
  assume "sublist [96, 96, 96] (cleanQuery s)"
  then have "sublist [96, 96, 96] (stripFence (stripSqlFence s))"
    unfolding cleanQuery_def using trimWhiteSpace_sublist sublist_order.order_trans by blast
  then show False by (simp add: stripFence_no_fence)
qed

lemma stripFence_append_fence: "stripFence (s @ [96, 96, 96]) = stripFence s"
proof (induction s rule: stripFence.induct)
  case (1 a b c rest)
  then show ?case by simp
next
  case (3 a)
  then show ?case by (simp add: js_fence)
next
  case (2 a v)
  then show ?case by (simp add: js_fence)
next
  case 4
  then show ?case by (simp add: js_fence)
qed

lemma stripFence_append_line_feed: "stripFence (s @ 10 # t) = stripFence s @ 10 # stripFence t"
proof (induction s rule: stripFence.induct)
  case (1 a b c rest)
  then show ?case by simp
next
  case (3 a)
  then show ?case by (simp add: stripFence_second_other)
next
  case (2 a v)
  then show ?case by (simp add: js_fence stripFence_second_other)
next
  case 4
  then show ?case by (simp add: stripFence_other)
qed

text \<open>
  The first replace on a text followed by the closing fence: nothing of the closing fence
  is taken, or its line feed is, by a \<open>```sql\<close> that ends the text.
\<close>

lemma stripSqlFence_append_closing:
  "stripSqlFence (s @ [10, 96, 96, 96]) = stripSqlFence s @ [10, 96, 96, 96] \<or>
   stripSqlFence (s @ [10, 96, 96, 96]) = stripSqlFence s @ [96, 96, 96]"
proof (induction s rule: stripSqlFence.induct)
  case (1 a b c d e f rest)
  show ?case
  proof (cases "[a, b, c, d, e, f] = js ''```sql''")
    case True
    show ?thesis
    proof (cases rest)
      case Nil
      with True show ?thesis by (simp add: js_line_feed js_sql_fence)
    next
      case (Cons n rest')
      with True 1 show ?thesis by (cases "[n] = js ''\<newline>''") auto
    qed
  next
    case False
    with 1 show ?thesis by auto
  qed
qed (simp_all add: js_sql_fence js_line_feed)

lemma trimWhiteSpace_append_space:
  assumes "isWhiteSpace w"
  shows "trimWhiteSpace (s @ [w]) = trimWhiteSpace s"
proof (cases "\<forall>x\<in>set s. isWhiteSpace x")
  case True
  then have "dropWhile isWhiteSpace s = []" by simp
  moreover from True assms have "dropWhile isWhiteSpace (s @ [w]) = []" by simp
  ultimately show ?thesis by (simp only: trimWhiteSpace_def)
next
  case False
  then have "dropWhile isWhiteSpace (s @ [w]) = dropWhile isWhiteSpace s @ [w]"
    by (auto simp: dropWhile_append)
  with assms show ?thesis by (simp add: trimWhiteSpace_def)
qed

lemma isWhiteSpace_line_feed: "isWhiteSpace 10"
  by (simp add: isWhiteSpace_def)

lemma cleanQuery_fenced:
  "cleanQuery (js ''```sql\<newline>'' @ s @ js ''\<newline>```'') = cleanQuery s"
proof -
  have head_fence: "js ''```sql\<newline>'' = [96, 96, 96, 115, 113, 108, 10]"
    by (simp add: js_def)
  have tail_fence: "js ''\<newline>```'' = [10, 96, 96, 96]"
    by (simp add: js_def)
  have first: "stripSqlFence (js ''```sql\<newline>'' @ s @ js ''\<newline>```'')
      = stripSqlFence (s @ [10, 96, 96, 96])"
    by (simp add: head_fence tail_fence js_sql_fence js_line_feed)
  have kept: "stripFence (stripSqlFence s @ [10, 96, 96, 96]) = stripFence (stripSqlFence s) @ [10]"
    by (simp add: stripFence_append_line_feed js_fence)
  have taken: "stripFence (stripSqlFence s @ [96, 96, 96]) = stripFence (stripSqlFence s)"
    by (rule stripFence_append_fence)
  from stripSqlFence_append_closing [of s] show ?thesis
  proof
    assume "stripSqlFence (s @ [10, 96, 96, 96]) = stripSqlFence s @ [10, 96, 96, 96]"
    then show ?thesis
      by (simp only: cleanQuery_def first kept trimWhiteSpace_append_space [OF isWhiteSpace_line_feed])
  next
    assume "stripSqlFence (s @ [10, 96, 96, 96]) = stripSqlFence s @ [96, 96, 96]"
    then show ?thesis
      by (simp only: cleanQuery_def first taken)
  qed
qed

lemma cleanQuery_select_1: "cleanQuery (js ''SELECT 1'') = js ''SELECT 1''"
  by (simp add: cleanQuery_def trimWhiteSpace_def isWhiteSpace_def js_def)

lemma cleanQuery_fenced_select_1:
  "cleanQuery (js ''```sql\<newline>SELECT 1\<newline>```'') = js ''SELECT 1''"
  by (simp add: cleanQuery_def trimWhiteSpace_def isWhiteSpace_def js_def)

text \<open>
  C9. \<open>cleanQuery\<close> is idempotent: applied to its own result it returns that result, for
  every string.
\<close>

theorem cleanQuery_idempotent: "cleanQuery (cleanQuery s) = cleanQuery s"
proof -
  have nf: "\<not> sublist [96, 96, 96] (cleanQuery s)"
    by (rule cleanQuery_no_fence)
  have "cleanQuery (cleanQuery s) = trimWhiteSpace (cleanQuery s)"
    by (simp add: cleanQuery_def [of "cleanQuery s"] stripSqlFence_unchanged [OF nf]
        stripFence_unchanged [OF nf])
  also have "\<dots> = cleanQuery s"
    by (simp add: cleanQuery_def trimWhiteSpace_idem)
  finally show ?thesis .
qed

text \<open>
  C3. For every string \<open>s\<close>, \<open>cleanQuery\<close> of \<open>s\<close> wrapped in an opening \<open>```sql\<close> line and a
  closing \<open>```\<close> line is \<open>cleanQuery\<close> of \<open>s\<close>; and \<open>generateSQLQuery\<close> resolves with
  \<open>SELECT 1\<close> when the first choice of the model's response is that text in such a fence.
\<close>

theorem cleanQuery_fence_round_trip:
  "cleanQuery (js ''```sql\<newline>'' @ s @ js ''\<newline>```'') = cleanQuery s \<and>
   (chatGenerate env (trace st) prompt schema = Inr response \<longrightarrow>
    choices response = c # cs \<longrightarrow>
    content c = Some (js ''```sql\<newline>SELECT 1\<newline>```'') \<longrightarrow>
      fst (generateSQLQuery env prompt schema st) = Inr (js ''SELECT 1''))"
proof -
  have nonempty: "js ''```sql\<newline>SELECT 1\<newline>```'' \<noteq> []"
    by (simp add: js_def)
  show ?thesis
    by (simp add: cleanQuery_fenced generateSQLQuery_def andThen_def chatCall_def succeed_def
        nonempty cleanQuery_fenced_select_1)
qed

theorem cleanQuery_fence_round_trip_witness:
  "cleanQuery (js ''```sql\<newline>'' @ js ''SELECT 2'' @ js ''\<newline>```'') = cleanQuery (js ''SELECT 2'') \<and>
   fst (generateSQLQuery sampleEnv (js ''How many?'') (js ''Database Schema:'') initialState)
     = Inr (js ''SELECT 1'')"
  using cleanQuery_fence_round_trip [of "js ''SELECT 2''" sampleEnv initialState "js ''How many?''"
      "js ''Database Schema:''"
      "\<lparr>choices = [\<lparr>content = Some (js ''```sql\<newline>SELECT 1\<newline>```'')\<rparr>]\<rparr>"
      "\<lparr>content = Some (js ''```sql\<newline>SELECT 1\<newline>```'')\<rparr>" "[]"]
  by (simp add: sampleEnv_def)

subsection \<open>Connection handling\<close>

lemma connect_live: "pool s = Some p \<Longrightarrow> connect env s = (Inr (), s)"
  by (simp add: connect_def rethrow_def succeed_def)

lemma connect_absent:
  "pool s = None \<Longrightarrow>
   connect env s =
     (case poolConnect env (trace s) of
        Inl r \<Rightarrow> (Inl (Error (js ''Failed to connect to database: ''
                   @ messageOrUnknown (thrownOf r))), logEvent OpenFailed s)
      | Inr p \<Rightarrow> (Inr (), (logEvent (Opened p) s)\<lparr>pool := Some p\<rparr>))"
  by (simp add: connect_def rethrow_def openPool_def split: sum.splits)

lemma connect_resolved: "connect env s = (Inr u, s') \<Longrightarrow> pool s' \<noteq> None"
  by (cases "pool s") (auto simp: connect_absent connect_live split: sum.splits)

lemma connect_rejected: "connect env s = (Inl e, s') \<Longrightarrow> \<exists>m. e = Error m"
  by (auto simp: connect_def rethrow_def split: prod.splits sum.splits)

lemma executeQuery_live:
  "pool s = Some p \<Longrightarrow>
   executeQuery env query s =
     (case query (trace s) p of
        Inl r \<Rightarrow> (Inl (thrownOf r), logEvent (Queried p) s)
      | Inr rows \<Rightarrow> (Inr rows, logEvent (Queried p) s))"
  by (simp add: executeQuery_def andThen_def succeed_def dispatch_def)

lemma executeQuery_absent:
  "pool s = None \<Longrightarrow>
   executeQuery env query s =
     (case poolConnect env (trace s) of
        Inl r \<Rightarrow> (Inl (Error (js ''Failed to connect to database: ''
                   @ messageOrUnknown (thrownOf r))), logEvent OpenFailed s)
      | Inr p \<Rightarrow>
          (case query (trace s @ [Opened p]) p of
             Inl r \<Rightarrow> (Inl (thrownOf r), logEvent (Queried p) ((logEvent (Opened p) s)\<lparr>pool := Some p\<rparr>))
           | Inr rows \<Rightarrow> (Inr rows, logEvent (Queried p) ((logEvent (Opened p) s)\<lparr>pool := Some p\<rparr>))))"
  by (simp add: executeQuery_def andThen_def connect_absent dispatch_def logEvent_def
      split: sum.splits)

lemma thrownOf_not_TypeError: "thrownOf r \<noteq> TypeError m"
  by (cases r) simp_all

lemma disconnect_resolved: "disconnect env s0 = (Inr u, s) \<Longrightarrow> pool s = None"
  by (auto simp: disconnect_def split: option.splits sum.splits)

text \<open>
  C10. \<open>executeQuery\<close> never reads \<open>request\<close> of an absent pool: it never rejects with the
  runtime's \<open>TypeError\<close>; a \<open>connect\<close> that resolves leaves a pool; and right after a
  \<open>disconnect\<close> that resolved, \<open>executeQuery\<close> opens a pool first and then resolves with the
  driver's record set or rejects with the driver's rejection, or rejects with the wrapped
  rejection of the connection attempt.
\<close>

theorem executeQuery_pool_present:
  "(\<forall>m. fst (executeQuery env query s) \<noteq> Inl (TypeError m)) \<and>
   (connect env s = (Inr (), s') \<longrightarrow> pool s' \<noteq> None) \<and>
   (disconnect env s0 = (Inr (), s) \<longrightarrow>
      (case poolConnect env (trace s) of
         Inl r \<Rightarrow>
           fst (executeQuery env query s) =
             Inl (Error (js ''Failed to connect to database: '' @ messageOrUnknown (thrownOf r)))
       | Inr p \<Rightarrow>
           fst (executeQuery env query s) =
             (case query (trace s @ [Opened p]) p of
                Inl r \<Rightarrow> Inl (thrownOf r)
              | Inr rows \<Rightarrow> Inr rows)))"
proof (intro conjI allI impI)
  fix m
  show "fst (executeQuery env query s) \<noteq> Inl (TypeError m)"
  proof (cases "pool s")
    case None
    then show ?thesis
      by (auto simp: executeQuery_absent thrownOf_not_TypeError split: sum.splits)
  next
    case (Some p)
    then show ?thesis
      by (auto simp: executeQuery_live thrownOf_not_TypeError split: sum.splits)
  qed
next
  assume "connect env s = (Inr (), s')"
  then show "pool s' \<noteq> None" by (rule connect_resolved)
next
  assume "disconnect env s0 = (Inr (), s)"
  then have "pool s = None" by (rule disconnect_resolved)
  then show "case poolConnect env (trace s) of
         Inl r \<Rightarrow>
           fst (executeQuery env query s) =
             Inl (Error (js ''Failed to connect to database: '' @ messageOrUnknown (thrownOf r)))
       | Inr p \<Rightarrow>
           fst (executeQuery env query s) =
             (case query (trace s @ [Opened p]) p of
                Inl r \<Rightarrow> Inl (thrownOf r)
              | Inr rows \<Rightarrow> Inr rows)"
    by (simp add: executeQuery_absent split: sum.splits)
qed

theorem executeQuery_pool_present_witness:
  "connect sampleEnv initialState = (Inr (), \<lparr>pool = Some (Pool 0), trace = [Opened (Pool 0)]\<rparr>) \<and>
   disconnect sampleEnv \<lparr>pool = Some (Pool 0), trace = [Opened (Pool 0)]\<rparr>
     = (Inr (), \<lparr>pool = None, trace = [Opened (Pool 0), Closed (Pool 0)]\<rparr>) \<and>
   fst (executeQuery sampleEnv (sqlQuery sampleEnv (js ''SELECT 1''))
          \<lparr>pool = None, trace = [Opened (Pool 0), Closed (Pool 0)]\<rparr>)
     = Inl (Error (js ''Invalid object name''))"
  using executeQuery_pool_present [of sampleEnv "sqlQuery sampleEnv (js ''SELECT 1'')"
      "\<lparr>pool = None, trace = [Opened (Pool 0), Closed (Pool 0)]\<rparr>"
      "\<lparr>pool = Some (Pool 0), trace = [Opened (Pool 0)]\<rparr>"
      "\<lparr>pool = Some (Pool 0), trace = [Opened (Pool 0)]\<rparr>"]
  by (simp add: sampleEnv_def initialState_def connect_absent disconnect_def logEvent_def)

subsection \<open>The assistant\<close>

text \<open>
  C6. When the chat client answers with a response that has a first choice,
  \<open>formatResponse\<close> resolves: with the empty string when the content of that choice is
  \<open>null\<close> or empty, and with the content itself otherwise.
\<close>

theorem formatResponse_content:
  assumes "chatFormat env (trace s) query results = Inr response"
    and "choices response = c # cs"
  shows "(content c = None \<or> content c = Some [] \<longrightarrow>
            fst (formatResponse env query results s) = Inr []) \<and>
         (\<forall>t. content c = Some t \<longrightarrow> fst (formatResponse env query results s) = Inr t)"
  using assms
  by (auto simp: formatResponse_def andThen_def chatCall_def succeed_def)

theorem formatResponse_content_witness:
  "fst (formatResponse sampleEnv (js ''SELECT 1'') [] initialState) = Inr [] \<and>
   fst (formatResponse sampleEnv (js ''SELECT 1'') [()] initialState) = Inr (js ''One row.'')"
  using formatResponse_content [of sampleEnv initialState "js ''SELECT 1''" "[]"
      "\<lparr>choices = [\<lparr>content = None\<rparr>]\<rparr>" "\<lparr>content = None\<rparr>" "[]"]
    formatResponse_content [of sampleEnv initialState "js ''SELECT 1''" "[()]"
      "\<lparr>choices = [\<lparr>content = Some (js ''One row.'')\<rparr>]\<rparr>" "\<lparr>content = Some (js ''One row.'')\<rparr>" "[]"]
  by (simp add: sampleEnv_def)

subsection \<open>A catalog without base tables\<close>

text \<open>
  C5. When the connection is there and the enumeration of base tables returns no row,
  \<open>inspectSchema\<close> resolves with the title and nothing else.
\<close>

theorem inspectSchema_no_tables:
  assumes "connect env s = (Inr (), s1)"
    and "pool s1 = Some p"
    and "tablesQuery env (trace s1) p = Inr []"
  shows "inspectSchema env s =
           (Inr (js ''Database Schema:\<newline>=================\<newline>\<newline>''),
            logEvent (Queried p) s1)"
  using assms
  by (simp add: inspectSchema_def rethrow_def andThen_def succeed_def executeQuery_live)

theorem inspectSchema_no_tables_witness:
  "inspectSchema sampleEnv initialState =
     (Inr (js ''Database Schema:\<newline>=================\<newline>\<newline>''),
      \<lparr>pool = Some (Pool 0), trace = [Opened (Pool 0), Queried (Pool 0)]\<rparr>)"
  using inspectSchema_no_tables [of sampleEnv initialState
      "\<lparr>pool = Some (Pool 0), trace = [Opened (Pool 0)]\<rparr>" "Pool 0"]
  by (simp add: sampleEnv_def initialState_def connect_absent logEvent_def)

subsection \<open>The index block\<close>

lemma fold_append_lines: "fold (\<lambda>x acc. acc @ g x) xs acc = acc @ concat (map g xs)"
  by (induction xs arbitrary: acc) simp_all

lemma firstSeen_snoc:
  "firstSeen (xs @ [x]) = (if x \<in> set xs then firstSeen xs else firstSeen xs @ [x])"
  by (induction xs) auto

lemma set_firstSeen: "set (firstSeen xs) = set xs"
  by (induction xs) auto

lemma distinct_firstSeen: "distinct (firstSeen xs)"
  by (induction xs) (auto simp: set_firstSeen)

lemma groupIndexes_snoc:
  "groupIndexes (rs @ [r]) m =
     (case groupIndexes rs m of Inl e \<Rightarrow> Inl e | Inr m' \<Rightarrow> groupIndex r m')"
  by (induction rs arbitrary: m) (simp_all split: sum.splits)

lemma map_of_keyed:
  "map_of (map (\<lambda>k. (k, g k)) ks) n = (if n \<in> set ks then Some (g n) else None)"
  by (induction ks) auto

lemma mapSet_absent:
  "n \<notin> set ks \<Longrightarrow> mapSet (map (\<lambda>k. (k, g k)) ks) n v = map (\<lambda>k. (k, g k)) ks @ [(n, v)]"
  by (induction ks) auto

lemma mapSet_present:
  "distinct ks \<Longrightarrow> n \<in> set ks \<Longrightarrow>
   mapSet (map (\<lambda>k. (k, g k)) ks) n v = map (\<lambda>k. (k, if k = n then v else g k)) ks"
  by (induction ks) auto

lemma mapSet_append_last: "n \<notin> fst ` set m \<Longrightarrow> mapSet (m @ [(n, v)]) n w = m @ [(n, w)]"
  by (induction m) auto

lemma grouped_snoc_other:
  "INDEX_NAME r \<noteq> n \<Longrightarrow> grouped (rs @ [r]) n = grouped rs n"
  by (simp add: grouped_def contributing_def firstFlag_def)

lemma grouped_snoc_new:
  "INDEX_NAME r \<notin> INDEX_NAME ` set rs \<Longrightarrow>
   grouped (rs @ [r]) (INDEX_NAME r) = ([ix_COLUMN_NAME r], is_unique r)"
proof -
  assume "INDEX_NAME r \<notin> INDEX_NAME ` set rs"
  then have "\<forall>x\<in>set rs. INDEX_NAME x \<noteq> INDEX_NAME r"
    by (metis imageI)
  then have "filter (\<lambda>x. INDEX_NAME x = INDEX_NAME r) rs = []"
    by (simp add: filter_empty_conv)
  then show ?thesis
    by (simp add: grouped_def contributing_def firstFlag_def)
qed

lemma grouped_snoc_known:
  "INDEX_NAME r \<in> INDEX_NAME ` set rs \<Longrightarrow>
   grouped (rs @ [r]) (INDEX_NAME r) =
     (fst (grouped rs (INDEX_NAME r)) @ [ix_COLUMN_NAME r], snd (grouped rs (INDEX_NAME r)))"
proof -
  assume "INDEX_NAME r \<in> INDEX_NAME ` set rs"
  then have "filter (\<lambda>x. INDEX_NAME x = INDEX_NAME r) rs \<noteq> []"
    by (auto simp: filter_empty_conv)
  then show ?thesis
    by (cases "filter (\<lambda>x. INDEX_NAME x = INDEX_NAME r) rs")
      (simp_all add: grouped_def contributing_def firstFlag_def)
qed

text \<open>
  The map built by \<open>indexes.forEach\<close>: the distinct index names in first-seen order, each
  with the columns of its rows in row order and the flag of its first row.
\<close>

lemma groupIndexes_grouped:
  "groupIndexes indexes [] =
     Inr (map (\<lambda>n. (n, grouped indexes n)) (firstSeen (map INDEX_NAME indexes)))"
proof (induction indexes rule: rev_induct)
  case Nil
  show ?case by simp
next
  case (snoc r rs)
  let ?n = "INDEX_NAME r"
  let ?ks = "firstSeen (map INDEX_NAME rs)"
  let ?m = "map (\<lambda>n. (n, grouped rs n)) ?ks"
  have step: "groupIndexes (rs @ [r]) [] = groupIndex r ?m"
    by (simp add: groupIndexes_snoc snoc.IH)
  show ?case
  proof (cases "?n \<in> INDEX_NAME ` set rs")
    case True
    then have in_ks: "?n \<in> set ?ks" by (simp add: set_firstSeen)
    have "groupIndex r ?m =
        Inr (map (\<lambda>k. (k, if k = ?n then (fst (grouped rs ?n) @ [ix_COLUMN_NAME r], snd (grouped rs ?n))
                          else grouped rs k)) ?ks)"
      using in_ks
      by (simp add: groupIndex_def mapHas_def mapGet_def map_of_keyed
          mapSet_present [OF distinct_firstSeen] split: prod.splits)
    also have "\<dots> = Inr (map (\<lambda>k. (k, grouped (rs @ [r]) k)) ?ks)"
      using True by (auto simp: grouped_snoc_known grouped_snoc_other)
    finally have res: "groupIndex r ?m = Inr (map (\<lambda>k. (k, grouped (rs @ [r]) k)) ?ks)" .
    have ks: "firstSeen (map INDEX_NAME (rs @ [r])) = ?ks"
      using True by (simp add: firstSeen_snoc)
    show ?thesis by (simp only: ks step res)
  next
    case False
    then have out_ks: "?n \<notin> set ?ks" by (simp add: set_firstSeen)
    then have out_m: "?n \<notin> fst ` set ?m" by (auto simp: image_iff)
    have same: "map (\<lambda>k. (k, grouped rs k)) ?ks = map (\<lambda>k. (k, grouped (rs @ [r]) k)) ?ks"
    proof (rule map_cong [OF refl])
      fix k
      assume "k \<in> set ?ks"
      with out_ks have "INDEX_NAME r \<noteq> k" by auto
      then show "(k, grouped rs k) = (k, grouped (rs @ [r]) k)"
        by (simp add: grouped_snoc_other)
    qed
    have "groupIndex r ?m = Inr (?m @ [(?n, [ix_COLUMN_NAME r], is_unique r)])"
      using out_ks
      by (simp add: groupIndex_def mapHas_def mapGet_def map_of_keyed mapSet_absent
          mapSet_append_last [OF out_m] Let_def map_add_def)
    also have "\<dots> = Inr (map (\<lambda>k. (k, grouped (rs @ [r]) k)) (?ks @ [?n]))"
      using False same by (simp add: grouped_snoc_new)
    finally have res: "groupIndex r ?m = Inr (map (\<lambda>k. (k, grouped (rs @ [r]) k)) (?ks @ [?n]))" .
    have ks: "firstSeen (map INDEX_NAME (rs @ [r])) = ?ks @ [?n]"
      using False by (simp add: firstSeen_snoc)
    show ?thesis by (simp only: ks step res)
  qed
qed

lemma addIndexes_first_flag:
  "addIndexes indexes schema = Inr (schema @ indexesBlock firstFlag indexes)"
proof (cases "indexes = []")
  case True
  then show ?thesis by (simp add: addIndexes_def indexesBlock_def)
next
  case False
  have line: "addIndexLine = (\<lambda>entry acc. acc @ addIndexLine entry [])"
    by (rule ext, rule ext) (simp add: addIndexLine_def split: prod.splits)
  have "fold addIndexLine m acc = acc @ concat (map (\<lambda>entry. addIndexLine entry []) m)" for m acc
    by (subst line) (rule fold_append_lines)
  with False show ?thesis
    by (simp add: addIndexes_def groupIndexes_grouped indexesBlock_def comp_def
        addIndexLine_def grouped_def indexLine_def)
qed

lemma firstFlag_everyFlag:
  assumes "\<forall>r\<in>set indexes. \<forall>r'\<in>set indexes.
             INDEX_NAME r = INDEX_NAME r' \<longrightarrow> is_unique r = is_unique r'"
    and "n \<in> INDEX_NAME ` set indexes"
  shows "firstFlag indexes n = everyFlag indexes n"
proof -
  from assms(2) obtain r rs where rows: "contributing indexes n = r # rs"
    by (cases "contributing indexes n") (auto simp: contributing_def filter_empty_conv)
  have "\<forall>x\<in>set (contributing indexes n). is_unique x = is_unique r"
  proof
    fix x assume "x \<in> set (contributing indexes n)"
    moreover have "r \<in> set (contributing indexes n)" by (simp add: rows)
    ultimately show "is_unique x = is_unique r"
      using assms(1) by (auto simp: contributing_def)
  qed
  then show ?thesis
    by (auto simp: firstFlag_def everyFlag_def rows list_all_iff)
qed

text \<open>
  C2. For every sequence of index rows of a table as the catalog returns them, where the
  rows of one index name carry the same uniqueness flag (the flag is a column of the index,
  not of its key columns), the index block has one line for each distinct index name in
  first-seen order, listing the columns of that index in row order, and the line carries
  \<open>(UNIQUE)\<close> if and only if the flag of every contributing row is true.
\<close>

theorem index_block_every_flag:
  assumes "\<forall>r\<in>set indexes. \<forall>r'\<in>set indexes.
             INDEX_NAME r = INDEX_NAME r' \<longrightarrow> is_unique r = is_unique r'"
  shows "addIndexes indexes schema = Inr (schema @ indexesBlock everyFlag indexes)"
proof -
  have "map (\<lambda>n. indexLine (firstFlag indexes n) indexes n) (firstSeen (map INDEX_NAME indexes))
      = map (\<lambda>n. indexLine (everyFlag indexes n) indexes n) (firstSeen (map INDEX_NAME indexes))"
    by (rule map_cong [OF refl]) (simp add: set_firstSeen firstFlag_everyFlag [OF assms])
  then have "indexesBlock firstFlag indexes = indexesBlock everyFlag indexes"
    by (simp only: indexesBlock_def)
  then show ?thesis
    by (simp add: addIndexes_first_flag)
qed

theorem index_block_every_flag_witness:
  "addIndexes sampleIndexes (js ''Columns:\<newline>'') =
     Inr (js ''Columns:\<newline>'' @ indexesBlock everyFlag sampleIndexes) \<and>
   indexesBlock everyFlag sampleIndexes =
     js ''\<newline>Indexes:\<newline>- IX_Name (UNIQUE): Name\<newline>- IX_Geo: Country, City\<newline>''"
proof -
  have agree: "\<forall>r\<in>set sampleIndexes. \<forall>r'\<in>set sampleIndexes.
       INDEX_NAME r = INDEX_NAME r' \<longrightarrow> is_unique r = is_unique r'"
    by (simp add: sampleIndexes_def js_def)
  have rendered: "indexesBlock everyFlag sampleIndexes =
     js ''\<newline>Indexes:\<newline>- IX_Name (UNIQUE): Name\<newline>- IX_Geo: Country, City\<newline>''"
    by (simp add: indexesBlock_def indexLine_def everyFlag_def contributing_def
        sampleIndexes_def js_def)
  from index_block_every_flag [OF agree, of "js ''Columns:\<newline>''"] agree rendered
  show ?thesis by blast
qed

subsection \<open>The section of one table\<close>










subsection \<open>What the methods do to the state\<close>

lemma footprint_trans:
  assumes "footprint A s s'" and "footprint A s' s''"
  shows "footprint A s s''"
  using assms(2,1)
proof (induction rule: footprint.induct)
  case (fp_refl t)
  then show ?case .
next
  case (fp_query t t' p)
  then show ?case by (simp add: footprint.fp_query)
next
  case (fp_opened t t' p)
  then show ?case by (simp add: footprint.fp_opened)
next
  case (fp_open_failed t t')
  then show ?case by (simp add: footprint.fp_open_failed)
next
  case (fp_chat t t' e)
  then show ?case by (simp add: footprint.fp_chat)
qed

lemma footprint_mono: "footprint A s s' \<Longrightarrow> A \<subseteq> B \<Longrightarrow> footprint B s s'"
  by (induction rule: footprint.induct) (auto intro: footprint.intros)

lemma snd_rethrow: "snd (rethrow pre m s) = snd (m s)"
  by (simp add: rethrow_def split: prod.splits sum.splits)

lemma andThen_footprint:
  assumes "\<And>s. footprint A s (snd (m s))"
    and "\<And>x s. footprint A s (snd (f x s))"
  shows "footprint A s (snd (andThen m f s))"
proof (cases "m s")
  case (Pair r s')
  with assms(1) [of s] have first: "footprint A s s'" by simp
  show ?thesis
  proof (cases r)
    case (Inl e)
    with Pair first show ?thesis by (simp add: andThen_def)
  next
    case (Inr x)
    with Pair have "snd (andThen m f s) = snd (f x s')" by (simp add: andThen_def)
    with first assms(2) [of s' x] show ?thesis by (simp add: footprint_trans)
  qed
qed

lemma connect_footprint: "footprint A s (snd (connect env s))"
proof (cases "pool s")
  case None
  then show ?thesis
    by (auto simp: connect_absent split: sum.splits
        intro: footprint.fp_opened footprint.fp_open_failed footprint.fp_refl)
next
  case (Some p)
  then show ?thesis by (simp add: connect_live footprint.fp_refl)
qed

lemma dispatch_footprint: "footprint A s (snd (dispatch query s))"
  by (auto simp: dispatch_def split: option.splits sum.splits
      intro: footprint.fp_query footprint.fp_refl)

lemma executeQuery_footprint: "footprint A s (snd (executeQuery env query s))"
  unfolding executeQuery_def
  by (rule andThen_footprint) (simp_all add: connect_footprint succeed_def footprint.fp_refl
      dispatch_footprint)

lemma processTable_footprint: "footprint A s (snd (processTable env table schema s))"
  unfolding processTable_def Let_def
  by (intro andThen_footprint executeQuery_footprint)
    (simp add: throw_def succeed_def footprint.fp_refl split: sum.splits)

lemma processTables_footprint: "footprint A s (snd (processTables env tables schema s))"
proof (induction tables arbitrary: schema s)
  case Nil
  show ?case by (simp add: footprint.fp_refl)
next
  case (Cons table tables)
  show ?case
  proof (cases "processTable env table schema s")
    case (Pair r s')
    with processTable_footprint [of A s env table schema] have first: "footprint A s s'"
      by simp
    show ?thesis
    proof (cases r)
      case (Inl e)
      with Pair first show ?thesis by simp
    next
      case (Inr schema')
      with Pair first Cons.IH [of s' schema'] show ?thesis
        by (simp add: footprint_trans)
    qed
  qed
qed

lemma inspectSchema_footprint: "footprint A s (snd (inspectSchema env s))"
  unfolding inspectSchema_def snd_rethrow
  by (intro andThen_footprint connect_footprint executeQuery_footprint processTables_footprint)
    (simp add: throw_def succeed_def footprint.fp_refl)

lemma chatCall_footprint:
  "e \<in> A \<Longrightarrow> e \<in> {ChatGenerate, ChatFormat} \<Longrightarrow> footprint A s (snd (chatCall e create s))"
  by (auto simp: chatCall_def split: sum.splits intro: footprint.fp_chat footprint.fp_refl)

lemma generateSQLQuery_footprint:
  "ChatGenerate \<in> A \<Longrightarrow> footprint A s (snd (generateSQLQuery env prompt schema s))"
  unfolding generateSQLQuery_def
  by (rule andThen_footprint)
    (simp_all add: chatCall_footprint throw_def succeed_def footprint.fp_refl split: sum.splits)

lemma formatResponse_footprint:
  "ChatFormat \<in> A \<Longrightarrow> footprint A s (snd (formatResponse env query results s))"
  unfolding formatResponse_def
  by (rule andThen_footprint)
    (simp_all add: chatCall_footprint throw_def succeed_def footprint.fp_refl split: sum.splits)

lemma analyzeAndQuery_footprint:
  "footprint {ChatGenerate, ChatFormat} s (snd (analyzeAndQuery env prompt s))"
  unfolding analyzeAndQuery_def snd_rethrow
  by (intro andThen_footprint inspectSchema_footprint generateSQLQuery_footprint
      executeQuery_footprint formatResponse_footprint) simp_all

text \<open>Along a footprint the log only grows, by events that close nothing.\<close>

lemma footprint_events:
  "footprint A s s' \<Longrightarrow>
   \<exists>events. trace s' = trace s @ events \<and> (\<forall>e\<in>set events. \<not> isClose e) \<and>
     (\<forall>e\<in>set events. e \<in> {ChatGenerate, ChatFormat} \<longrightarrow> e \<in> A)"
proof (induction rule: footprint.induct)
  case (fp_refl s)
  show ?case by simp
next
  case (fp_query s s' p)
  then obtain events where "trace s' = trace s @ events" "\<forall>e\<in>set events. \<not> isClose e"
    "\<forall>e\<in>set events. e \<in> {ChatGenerate, ChatFormat} \<longrightarrow> e \<in> A" by blast
  then show ?case
    by (intro exI [of _ "events @ [Queried p]"]) (simp add: logEvent_def)
next
  case (fp_opened s s' p)
  then obtain events where "trace s' = trace s @ events" "\<forall>e\<in>set events. \<not> isClose e"
    "\<forall>e\<in>set events. e \<in> {ChatGenerate, ChatFormat} \<longrightarrow> e \<in> A" by blast
  then show ?case
    by (intro exI [of _ "events @ [Opened p]"]) (simp add: logEvent_def)
next
  case (fp_open_failed s s')
  then obtain events where "trace s' = trace s @ events" "\<forall>e\<in>set events. \<not> isClose e"
    "\<forall>e\<in>set events. e \<in> {ChatGenerate, ChatFormat} \<longrightarrow> e \<in> A" by blast
  then show ?case
    by (intro exI [of _ "events @ [OpenFailed]"]) (simp add: logEvent_def)
next
  case (fp_chat s s' e)
  then obtain events where "trace s' = trace s @ events" "\<forall>e\<in>set events. \<not> isClose e"
    "\<forall>e\<in>set events. e \<in> {ChatGenerate, ChatFormat} \<longrightarrow> e \<in> A" by blast
  with fp_chat.hyps(2,3) show ?case
    by (intro exI [of _ "events @ [e]"]) (auto simp: logEvent_def)
qed

lemma footprint_pool: "footprint A s s' \<Longrightarrow> pool s = Some p \<Longrightarrow> pool s' = Some p"
  by (induction rule: footprint.induct) (simp_all add: logEvent_def)

lemma liveHandles_snoc: "liveHandles (events @ [e]) = liveAfter (liveHandles events) e"
  by (simp add: liveHandles_def)

lemma footprint_held:
  "footprint A s s' \<Longrightarrow> liveHandles (trace s) = held (pool s) \<Longrightarrow>
   liveHandles (trace s') = held (pool s')"
proof (induction rule: footprint.induct)
  case (fp_chat s s' e)
  then show ?case by (auto simp: logEvent_def liveHandles_snoc)
qed (simp_all add: logEvent_def liveHandles_snoc)

lemma disconnect_held:
  "liveHandles (trace s) = held (pool s) \<Longrightarrow>
   liveHandles (trace (snd (disconnect env s))) = held (pool (snd (disconnect env s)))"
  by (auto simp: disconnect_def logEvent_def liveHandles_snoc split: option.splits sum.splits)

lemma runCall_held:
  assumes "liveHandles (trace s) = held (pool s)"
  shows "liveHandles (trace (runCall env call s)) = held (pool (runCall env call s))"
proof (cases call)
  case CallConnect
  then show ?thesis using assms footprint_held [OF connect_footprint] by simp
next
  case CallDisconnect
  then show ?thesis using assms disconnect_held by (simp add: analyzerDisconnect_def)
next
  case (CallExecuteQuery query)
  then show ?thesis using assms footprint_held [OF executeQuery_footprint] by simp
next
  case CallInspectSchema
  then show ?thesis using assms footprint_held [OF inspectSchema_footprint] by simp
next
  case (CallAnalyzeAndQuery prompt)
  then show ?thesis using assms footprint_held [OF analyzeAndQuery_footprint] by simp
qed

lemma runCalls_held:
  "liveHandles (trace s) = held (pool s) \<Longrightarrow>
   liveHandles (trace (runCalls env calls s)) = held (pool (runCalls env calls s))"
  unfolding runCalls_def
  by (induction calls arbitrary: s) (simp_all add: runCall_held)

lemma runCall_footprint:
  "call \<noteq> CallDisconnect \<Longrightarrow> footprint {ChatGenerate, ChatFormat} s (runCall env call s)"
  by (cases call)
    (simp_all add: connect_footprint executeQuery_footprint inspectSchema_footprint
      analyzeAndQuery_footprint)

subsection \<open>One handle\<close>

text \<open>
  C7. \<open>connect\<close> on an inspector that holds a pool resolves and leaves the state as it
  is, the log of external calls included: no second connection is opened. In particular a
  second \<open>connect\<close> after one that resolved changes nothing. And whatever methods a client
  calls one after the other on a fresh analyzer, the pools opened and not closed are
  exactly the pool in the inspector's field, so at most one.
\<close>

theorem connect_idempotent:
  "(pool s = Some p \<longrightarrow> connect env s = (Inr (), s)) \<and>
   (connect env s0 = (Inr (), s1) \<longrightarrow> connect env s1 = (Inr (), s1)) \<and>
   liveHandles (trace (runCalls env calls initialState))
     = held (pool (runCalls env calls initialState)) \<and>
   length (liveHandles (trace (runCalls env calls initialState))) \<le> 1"
proof (intro conjI impI)
  assume "pool s = Some p"
  then show "connect env s = (Inr (), s)" by (rule connect_live)
next
  assume "connect env s0 = (Inr (), s1)"
  then have "pool s1 \<noteq> None" by (rule connect_resolved)
  then obtain q where "pool s1 = Some q" by blast
  then show "connect env s1 = (Inr (), s1)" by (rule connect_live)
next
  have start: "liveHandles (trace initialState) = held (pool initialState)"
    by (simp add: initialState_def liveHandles_def)
  then show one: "liveHandles (trace (runCalls env calls initialState))
      = held (pool (runCalls env calls initialState))"
    by (rule runCalls_held)
  show "length (liveHandles (trace (runCalls env calls initialState))) \<le> 1"
    unfolding one by (cases "pool (runCalls env calls initialState)") simp_all
qed

theorem connect_idempotent_witness:
  "connect sampleEnv initialState = (Inr (), \<lparr>pool = Some (Pool 0), trace = [Opened (Pool 0)]\<rparr>) \<and>
   connect sampleEnv \<lparr>pool = Some (Pool 0), trace = [Opened (Pool 0)]\<rparr>
     = (Inr (), \<lparr>pool = Some (Pool 0), trace = [Opened (Pool 0)]\<rparr>) \<and>
   length (liveHandles (trace (runCalls sampleEnv
     [CallConnect, CallAnalyzeAndQuery (js ''How many users?''), CallDisconnect, CallConnect]
     initialState))) \<le> 1"
proof -
  have first: "connect sampleEnv initialState =
      (Inr (), \<lparr>pool = Some (Pool 0), trace = [Opened (Pool 0)]\<rparr>)"
    by (simp add: sampleEnv_def initialState_def connect_absent logEvent_def)
  from connect_idempotent [of "\<lparr>pool = Some (Pool 0), trace = [Opened (Pool 0)]\<rparr>" "Pool 0"
      sampleEnv initialState "\<lparr>pool = Some (Pool 0), trace = [Opened (Pool 0)]\<rparr>"
      "[CallConnect, CallAnalyzeAndQuery (js ''How many users?''), CallDisconnect, CallConnect]"]
    first
  show ?thesis by blast
qed

text \<open>
  C8. \<open>analyzeAndQuery\<close> closes nothing, whether it resolves or rejects: the log grows by
  events none of which is a call of \<open>close\<close>, a pool held before is the pool held after,
  and the pools opened and not closed stay exactly the one in the field. The same holds of
  every method but \<open>disconnect\<close>; \<open>disconnect\<close> on a held pool whose \<open>close\<close> resolves
  closes it and clears the field.
\<close>

theorem analyzeAndQuery_keeps_connection:
  "(\<exists>events. trace (snd (analyzeAndQuery env prompt s)) = trace s @ events \<and>
      (\<forall>e\<in>set events. \<not> isClose e)) \<and>
   (pool s = Some p \<longrightarrow> pool (snd (analyzeAndQuery env prompt s)) = Some p) \<and>
   (liveHandles (trace s) = held (pool s) \<longrightarrow>
      liveHandles (trace (snd (analyzeAndQuery env prompt s)))
        = held (pool (snd (analyzeAndQuery env prompt s)))) \<and>
   (call \<noteq> CallDisconnect \<longrightarrow>
      (\<exists>events. trace (runCall env call s) = trace s @ events \<and>
         (\<forall>e\<in>set events. \<not> isClose e))) \<and>
   (pool s = Some p \<longrightarrow> poolClose env (trace s) p = Inr () \<longrightarrow>
      analyzerDisconnect env s = (Inr (), (logEvent (Closed p) s)\<lparr>pool := None\<rparr>))"
proof (intro conjI impI)
  show "\<exists>events. trace (snd (analyzeAndQuery env prompt s)) = trace s @ events \<and>
      (\<forall>e\<in>set events. \<not> isClose e)"
    using footprint_events [OF analyzeAndQuery_footprint [of s env prompt]] by blast
next
  assume "pool s = Some p"
  with analyzeAndQuery_footprint show "pool (snd (analyzeAndQuery env prompt s)) = Some p"
    by (rule footprint_pool)
next
  assume "liveHandles (trace s) = held (pool s)"
  with analyzeAndQuery_footprint
  show "liveHandles (trace (snd (analyzeAndQuery env prompt s)))
        = held (pool (snd (analyzeAndQuery env prompt s)))"
    by (rule footprint_held)
next
  assume "call \<noteq> CallDisconnect"
  then have "footprint {ChatGenerate, ChatFormat} s (runCall env call s)"
    by (rule runCall_footprint)
  from footprint_events [OF this]
  show "\<exists>events. trace (runCall env call s) = trace s @ events \<and>
         (\<forall>e\<in>set events. \<not> isClose e)"
    by blast
next
  assume "pool s = Some p" and "poolClose env (trace s) p = Inr ()"
  then show "analyzerDisconnect env s = (Inr (), (logEvent (Closed p) s)\<lparr>pool := None\<rparr>)"
    by (simp add: analyzerDisconnect_def disconnect_def)
qed

theorem analyzeAndQuery_keeps_connection_witness:
  "pool (snd (analyzeAndQuery sampleEnv (js ''How many users?'')
       \<lparr>pool = Some (Pool 0), trace = [Opened (Pool 0)]\<rparr>)) = Some (Pool 0) \<and>
   liveHandles (trace (snd (analyzeAndQuery sampleEnv (js ''How many users?'')
       \<lparr>pool = Some (Pool 0), trace = [Opened (Pool 0)]\<rparr>))) = [Pool 0] \<and>
   analyzerDisconnect sampleEnv \<lparr>pool = Some (Pool 0), trace = [Opened (Pool 0)]\<rparr>
     = (Inr (), \<lparr>pool = None, trace = [Opened (Pool 0), Closed (Pool 0)]\<rparr>)"
  using analyzeAndQuery_keeps_connection [of sampleEnv "js ''How many users?''"
      "\<lparr>pool = Some (Pool 0), trace = [Opened (Pool 0)]\<rparr>" "Pool 0" CallConnect]
  by (simp add: sampleEnv_def liveHandles_def logEvent_def)

subsection \<open>A failing execution\<close>

text \<open>
  C1. When \<open>inspectSchema\<close> and \<open>generateSQLQuery\<close> resolve and the driver rejects the
  generated statement with an \<open>Error\<close> whose message is \<open>m\<close>, \<open>analyzeAndQuery\<close> rejects
  with one \<open>Error\<close>, whose message is \<open>Failed to analyze and query: \<close> followed by \<open>m\<close>,
  and among the external calls of the run there is no call of the chat client for
  formatting.
\<close>

theorem analyzeAndQuery_execute_failure:
  assumes "inspectSchema env s = (Inr schema, s1)"
    and "generateSQLQuery env prompt schema s1 = (Inr query, s2)"
    and "pool s2 = Some p"
    and "sqlQuery env query (trace s2) p = Inl (RejectError m)"
  shows "fst (analyzeAndQuery env prompt s) =
           Inl (Error (js ''Failed to analyze and query: '' @ m)) \<and>
         sublist m (js ''Failed to analyze and query: '' @ m) \<and>
         (\<exists>events. trace (snd (analyzeAndQuery env prompt s)) = trace s @ events \<and>
            ChatFormat \<notin> set events)"
proof -
  have run: "analyzeAndQuery env prompt s =
      (Inl (Error (js ''Failed to analyze and query: '' @ m)), logEvent (Queried p) s2)"
    using assms
    by (simp add: analyzeAndQuery_def rethrow_def andThen_def executeQuery_live)
  have "footprint {ChatGenerate} s s1"
    using inspectSchema_footprint [of "{ChatGenerate}" s env] assms(1) by simp
  moreover have "footprint {ChatGenerate} s1 s2"
    using generateSQLQuery_footprint [of "{ChatGenerate}" s1 env prompt schema] assms(2) by simp
  ultimately have "footprint {ChatGenerate} s s2"
    by (rule footprint_trans)
  then have "footprint {ChatGenerate} s (logEvent (Queried p) s2)"
    using assms(3) by (rule footprint.fp_query)
  from footprint_events [OF this]
  obtain events where ev: "trace (logEvent (Queried p) s2) = trace s @ events"
    and chat: "\<forall>e\<in>set events. e \<in> {ChatGenerate, ChatFormat} \<longrightarrow> e \<in> {ChatGenerate}"
    by blast
  from chat have "ChatFormat \<notin> set events" by auto
  with ev run show ?thesis
    by (auto simp: sublist_append_leftI)
qed

theorem analyzeAndQuery_execute_failure_witness:
  "inspectSchema sampleEnv initialState =
     (Inr (js ''Database Schema:\<newline>=================\<newline>\<newline>''),
      \<lparr>pool = Some (Pool 0), trace = [Opened (Pool 0), Queried (Pool 0)]\<rparr>) \<and>
   generateSQLQuery sampleEnv (js ''How many users?'')
       (js ''Database Schema:\<newline>=================\<newline>\<newline>'')
       \<lparr>pool = Some (Pool 0), trace = [Opened (Pool 0), Queried (Pool 0)]\<rparr> =
     (Inr (js ''SELECT 1''),
      \<lparr>pool = Some (Pool 0), trace = [Opened (Pool 0), Queried (Pool 0), ChatGenerate]\<rparr>) \<and>
   fst (analyzeAndQuery sampleEnv (js ''How many users?'') initialState) =
     Inl (Error (js ''Failed to analyze and query: '' @ js ''Invalid object name''))"
proof -
  have inspect: "inspectSchema sampleEnv initialState =
     (Inr (js ''Database Schema:\<newline>=================\<newline>\<newline>''),
      \<lparr>pool = Some (Pool 0), trace = [Opened (Pool 0), Queried (Pool 0)]\<rparr>)"
    by (simp add: inspectSchema_def rethrow_def andThen_def succeed_def executeQuery_live
        connect_absent sampleEnv_def initialState_def logEvent_def)
  have nonempty: "js ''```sql\<newline>SELECT 1\<newline>```'' \<noteq> []"
    by (simp add: js_def)
  have generate: "generateSQLQuery sampleEnv (js ''How many users?'')
       (js ''Database Schema:\<newline>=================\<newline>\<newline>'')
       \<lparr>pool = Some (Pool 0), trace = [Opened (Pool 0), Queried (Pool 0)]\<rparr> =
     (Inr (js ''SELECT 1''),
      \<lparr>pool = Some (Pool 0), trace = [Opened (Pool 0), Queried (Pool 0), ChatGenerate]\<rparr>)"
    by (simp add: generateSQLQuery_def andThen_def chatCall_def succeed_def sampleEnv_def
        logEvent_def nonempty cleanQuery_fenced_select_1)
  have rejects: "sqlQuery sampleEnv (js ''SELECT 1'')
      (trace \<lparr>pool = Some (Pool 0), trace = [Opened (Pool 0), Queried (Pool 0), ChatGenerate]\<rparr>)
      (Pool 0) = Inl (RejectError (js ''Invalid object name''))"
    by (simp add: sampleEnv_def)
  from analyzeAndQuery_execute_failure [OF inspect generate _ rejects] inspect generate
  show ?thesis by simp
qed

end
